theory Spec2Isabelle
  imports Complex_Main "HOL-Library.Log_Nat" "HOL-Library.Sublist"
begin

section \<open>JavaScript numbers\<close>

text \<open>
  Every number of \<^verbatim>\<open>App.tsx\<close> is an IEEE-754 binary64 value. The counters (score, hits,
  misses, combo, maxCombo, timeLeft, target ids, millisecond timestamps) only ever hold
  integers and are only added, subtracted and compared, which is exact below \<open>2^53\<close>; they are
  modelled as \<open>int\<close>. The accuracy percentage and the geometry of a new target go through a
  division or a multiplication, whose result is rounded to the nearest double. A finite
  double is modelled as the rational it denotes, and \<open>fl\<close> is the rounding every arithmetic
  operation ends with: to 53 significant bits, nearest, ties to the even significand. The
  exponent range is not bounded (no overflow to infinity, no subnormals): the quotients and
  products below are far from both ends.
\<close>

definition pow2 :: "int \<Rightarrow> rat" where
  "pow2 n = (if 0 \<le> n then 2 ^ nat n else 1 / 2 ^ nat (- n))"

text \<open>The binary exponent of a positive rational \<open>q\<close>: the \<open>e\<close> with \<open>2^e \<le> q < 2^(e+1)\<close>.\<close>

definition binade :: "rat \<Rightarrow> int" where
  "binade q = (let (a, b) = quotient_of q; d = bitlen a - bitlen b
               in if pow2 d \<le> q then d else d - 1)"

definition round_even :: "rat \<Rightarrow> int" where
  "round_even m = (let f = \<lfloor>m\<rfloor>; r = m - of_int f
                   in if r < 1 / 2 then f
                      else if 1 / 2 < r then f + 1
                      else if even f then f else f + 1)"

definition fl :: "rat \<Rightarrow> rat" where
  "fl q = (if q = 0 then 0
           else let a = \<bar>q\<bar>; u = pow2 (binade a - 52)
                in sgn q * (of_int (round_even (a / u)) * u))"

text \<open>
  \<^verbatim>\<open>Math.round(v)\<close>: the integer nearest to \<open>v\<close>, the one towards \<open>+\<infinity>\<close> when two are
  equally near.
\<close>

definition Math_round :: "rat \<Rightarrow> int" where
  "Math_round v = \<lfloor>v + 1 / 2\<rfloor>"


section \<open>Data model\<close>

text \<open>
  \<^verbatim>\<open>interface Target { id; x; y; size; createdAt }\<close> and
  \<^verbatim>\<open>interface GameStats { score; hits; misses; accuracy }\<close>. The fields of \<open>Target\<close> carry
  the suffix \<open>T\<close> where the source's name is a constant of HOL.
\<close>

record Target =
  idT :: int
  xT :: rat
  yT :: rat
  sizeT :: rat
  createdAt :: int

record GameStats =
  score :: int
  hits :: int
  misses :: int
  accuracy :: int

datatype GameState = Menu | Playing | Ended

text \<open>
  The state of the component \<^verbatim>\<open>App\<close>: its \<^verbatim>\<open>useState\<close> cells, the counter
  \<^verbatim>\<open>targetIdRef\<close>, and the timers it has registered with the browser.
  \<^item> \<open>timerRef\<close>, \<open>spawnRef\<close>, \<open>cleanup\<close>: the interval of the session clock, the spawn
    interval and the expiry interval (the local \<^verbatim>\<open>cleanup\<close> of its effect); \<open>Some p\<close> when the
    interval is live, \<open>p\<close> being the period in milliseconds it was armed with, \<open>None\<close> when
    it has not been set or has been cleared;
  \<^item> \<open>pendingSpawns\<close>: the number of \<^verbatim>\<open>setTimeout(spawnTarget, i * 300)\<close> callbacks that
    have been scheduled and have not fired yet.
  \<^verbatim>\<open>mousePos\<close> only positions the crosshair and is left out.
\<close>

record App =
  gameState :: GameState
  targets :: "Target list"
  stats :: GameStats
  timeLeft :: int
  combo :: int
  maxCombo :: int
  targetIdRef :: int
  timerRef :: "int option"
  spawnRef :: "int option"
  cleanup :: "int option"
  pendingSpawns :: nat

definition initial :: App where
  "initial = \<lparr>gameState = Menu, targets = [],
     stats = \<lparr>score = 0, hits = 0, misses = 0, accuracy = 0\<rparr>,
     timeLeft = 60, combo = 0, maxCombo = 0, targetIdRef = 0,
     timerRef = None, spawnRef = None, cleanup = None, pendingSpawns = 0\<rparr>"


section \<open>Callbacks\<close>

text \<open>
  \<^verbatim>\<open>spawnTarget\<close>. The play area is mounted in every state, so \<^verbatim>\<open>gameAreaRef.current\<close> is
  set. \<open>rect\<close> is the width and height \<^verbatim>\<open>getBoundingClientRect\<close> returns, \<open>rnd\<close> the three
  \<^verbatim>\<open>Math.random()\<close> draws in the order they are made, \<open>now\<close> is \<^verbatim>\<open>Date.now()\<close>.
\<close>

definition spawnTarget :: "rat \<times> rat \<Rightarrow> rat \<times> rat \<times> rat \<Rightarrow> int \<Rightarrow> App \<Rightarrow> App" where
  "spawnTarget rect rnd now s =
     (case rect of (width, height) \<Rightarrow> case rnd of (r1, r2, r3) \<Rightarrow>
        let size = fl (fl (r1 * 30) + 30);
            margin = 100;
            x = fl (fl (r2 * fl (fl (width - size) - margin * 2)) + margin);
            y = fl (fl (r3 * fl (fl (height - size) - margin * 2)) + margin);
            newTarget = \<lparr>idT = targetIdRef s, xT = x, yT = y, sizeT = size, createdAt = now\<rparr>
        in s\<lparr>targetIdRef := targetIdRef s + 1, targets := targets s @ [newTarget]\<rparr>)"

text \<open>
  \<^verbatim>\<open>hitTarget\<close> is rebuilt whenever \<^verbatim>\<open>combo\<close> or \<^verbatim>\<open>maxCombo\<close> changes and reads both
  from its closure: \<open>combo_c\<close> and \<open>maxCombo_c\<close> are those captured values. The updater of
  \<^verbatim>\<open>setCombo\<close> reads the current cell (\<^verbatim>\<open>prev\<close>) instead.
\<close>

definition hitTarget :: "int \<Rightarrow> int \<Rightarrow> int \<Rightarrow> App \<Rightarrow> App" where
  "hitTarget combo_c maxCombo_c targetId s =
     (let prev = stats s;
          newHits = hits prev + 1;
          total = newHits + misses prev;
          acc = (if 0 < total then Math_round (fl (fl (of_int newHits / of_int total) * 100)) else 0);
          newCombo = combo s + 1
      in s\<lparr>targets := filter (\<lambda>t. idT t \<noteq> targetId) (targets s),
           stats := prev\<lparr>score := score prev + 100 + combo_c * 10, hits := newHits, accuracy := acc\<rparr>,
           combo := newCombo,
           maxCombo := (if maxCombo_c < newCombo then newCombo else maxCombo s)\<rparr>)"

definition handleMiss :: "App \<Rightarrow> App" where
  "handleMiss s =
     (let prev = stats s;
          newMisses = misses prev + 1;
          total = hits prev + newMisses;
          acc = (if 0 < total then Math_round (fl (fl (of_int (hits prev) / of_int total) * 100)) else 0)
      in s\<lparr>stats := prev\<lparr>misses := newMisses, accuracy := acc\<rparr>, combo := 0\<rparr>)"

definition startGame :: "App \<Rightarrow> App" where
  "startGame s = s\<lparr>gameState := Playing,
     stats := \<lparr>score = 0, hits = 0, misses = 0, accuracy = 0\<rparr>,
     timeLeft := 60, combo := 0, maxCombo := 0, targets := [], targetIdRef := 0\<rparr>"

text \<open>\<^verbatim>\<open>endGame\<close>: the two \<^verbatim>\<open>clearInterval\<close> calls cancel the clock and the spawn interval.\<close>

definition endGame :: "App \<Rightarrow> App" where
  "endGame s = s\<lparr>gameState := Ended, targets := [], timerRef := None, spawnRef := None\<rparr>"

text \<open>The callback of the one-second interval.\<close>

definition clockTick :: "App \<Rightarrow> App" where
  "clockTick s = (if timeLeft s \<le> 1 then (endGame s)\<lparr>timeLeft := 0\<rparr>
                  else s\<lparr>timeLeft := timeLeft s - 1\<rparr>)"

definition spawnInterval :: "int \<Rightarrow> int" where
  "spawnInterval secs = max 400 (1000 - (60 - secs) * 10)"

text \<open>The callback of the 100 ms interval.\<close>

definition expiryTick :: "int \<Rightarrow> App \<Rightarrow> App" where
  "expiryTick now s = s\<lparr>targets := filter (\<lambda>t. now - createdAt t < 3000) (targets s)\<rparr>"


section \<open>Effects\<close>

text \<open>
  After the render that follows an event, React re-runs each \<^verbatim>\<open>useEffect\<close> one of whose
  dependencies changed: first the cleanup its previous run returned, then its body. \<open>p\<close> is
  the state of the previous render, \<open>s\<close> the one being committed. \<^verbatim>\<open>spawnTarget\<close> and
  \<^verbatim>\<open>endGame\<close> are memoised with no dependencies and never change.
\<close>

text \<open>Dependencies \<^verbatim>\<open>[gameState, spawnTarget, endGame, timeLeft]\<close>.\<close>

definition effectTimers :: "App \<Rightarrow> App \<Rightarrow> App" where
  "effectTimers p s =
     (if gameState p = gameState s \<and> timeLeft p = timeLeft s then s
      else let s1 = (if gameState p = Playing then s\<lparr>timerRef := None, spawnRef := None\<rparr> else s)
           in if gameState s1 = Playing
              then s1\<lparr>timerRef := Some 1000, spawnRef := Some (spawnInterval (timeLeft s1))\<rparr>
              else s1)"

text \<open>Dependencies \<^verbatim>\<open>[gameState]\<close>.\<close>

definition effectExpiry :: "App \<Rightarrow> App \<Rightarrow> App" where
  "effectExpiry p s =
     (if gameState p = gameState s then s
      else let s1 = (if gameState p = Playing then s\<lparr>cleanup := None\<rparr> else s)
           in if gameState s1 = Playing then s1\<lparr>cleanup := Some 100\<rparr> else s1)"

text \<open>
  Dependencies \<^verbatim>\<open>[gameState, spawnTarget]\<close>; three \<^verbatim>\<open>setTimeout\<close> calls, and no cleanup
  is returned.
\<close>

definition effectInitialSpawn :: "App \<Rightarrow> App \<Rightarrow> App" where
  "effectInitialSpawn p s =
     (if gameState p = gameState s then s
      else if gameState s = Playing then s\<lparr>pendingSpawns := pendingSpawns s + 3\<rparr> else s)"

definition runEffects :: "App \<Rightarrow> App \<Rightarrow> App" where
  "runEffects p s = effectInitialSpawn p (effectExpiry p (effectTimers p s))"


section \<open>Events\<close>

text \<open>
  What can happen to the component: a click on one of the buttons, on a rendered target or
  on the play area, and a timer of the browser firing. Time itself is not modelled: a live
  interval and a pending timeout may fire at any moment, in any order.
\<close>

datatype event =
    ClickStart
  | ClickEnd
  | ClickMenu
  | ClickTarget int
  | ClickArea
  | ClockFire
  | SpawnFire "rat \<times> rat" "rat \<times> rat \<times> rat" int
  | ExpiryFire int
  | TimeoutFire "rat \<times> rat" "rat \<times> rat \<times> rat" int

text \<open>
  The JSX renders START TRAINING in \<open>Menu\<close>, Play Again and Main Menu in \<open>Ended\<close>, and End,
  the targets and the \<^verbatim>\<open>onClick\<close> of the play area only in \<open>Playing\<close>.
\<close>

fun enabled :: "event \<Rightarrow> App \<Rightarrow> bool" where
  "enabled ClickStart s = (gameState s = Menu \<or> gameState s = Ended)"
| "enabled ClickEnd s = (gameState s = Playing)"
| "enabled ClickMenu s = (gameState s = Ended)"
| "enabled (ClickTarget i) s = (gameState s = Playing \<and> i \<in> idT ` set (targets s))"
| "enabled ClickArea s = (gameState s = Playing)"
| "enabled ClockFire s = (timerRef s \<noteq> None)"
| "enabled (SpawnFire rect rnd now) s = (spawnRef s \<noteq> None)"
| "enabled (ExpiryFire now) s = (cleanup s \<noteq> None)"
| "enabled (TimeoutFire rect rnd now) s = (0 < pendingSpawns s)"

text \<open>
  The state updates an event's callback makes. A click is flushed and rendered before the
  next event is dispatched, so the closure of \<^verbatim>\<open>hitTarget\<close> holds the \<^verbatim>\<open>combo\<close> and
  \<^verbatim>\<open>maxCombo\<close> of the current state; \<^verbatim>\<open>stopPropagation\<close> keeps a click on a target from
  reaching \<^verbatim>\<open>handleMiss\<close>.
\<close>

fun handler :: "event \<Rightarrow> App \<Rightarrow> App" where
  "handler ClickStart s = startGame s"
| "handler ClickEnd s = endGame s"
| "handler ClickMenu s = s\<lparr>gameState := Menu\<rparr>"
| "handler (ClickTarget i) s = hitTarget (combo s) (maxCombo s) i s"
| "handler ClickArea s = handleMiss s"
| "handler ClockFire s = clockTick s"
| "handler (SpawnFire rect rnd now) s = spawnTarget rect rnd now s"
| "handler (ExpiryFire now) s = expiryTick now s"
| "handler (TimeoutFire rect rnd now) s =
     spawnTarget rect rnd now (s\<lparr>pendingSpawns := pendingSpawns s - 1\<rparr>)"

definition step :: "event \<Rightarrow> App \<Rightarrow> App" where
  "step e s = runEffects s (handler e s)"

text \<open>A sequence of events, each of which must be possible in the state it meets.\<close>

fun run :: "event list \<Rightarrow> App \<Rightarrow> App option" where
  "run [] s = Some s"
| "run (e # es) s = (if enabled e s then run es (step e s) else None)"

text \<open>The states a sequence of events passes through, the first one included.\<close>

fun trace :: "event list \<Rightarrow> App \<Rightarrow> App list option" where
  "trace [] s = Some [s]"
| "trace (e # es) s = (if enabled e s then map_option ((#) s) (trace es (step e s)) else None)"


section \<open>The accuracy percentage\<close>

text \<open>
  \<^verbatim>\<open>hitTarget\<close> and \<^verbatim>\<open>handleMiss\<close> each spell the percentage out; in both it is this
  function of the hits and misses they store.
\<close>

definition accuracyOf :: "int \<Rightarrow> int \<Rightarrow> int" where
  "accuracyOf h m =
     (let total = h + m
      in if 0 < total then Math_round (fl (fl (of_int h / of_int total) * 100)) else 0)"

text \<open>
  The specification's words: \<open>round(hits / (hits + misses) \<times> 100)\<close>, 0 when there has been
  no attempt yet, over the exact quotient, a half rounded up as \<^verbatim>\<open>Math.round\<close> does.
\<close>

definition spec_accuracy :: "int \<Rightarrow> int \<Rightarrow> int" where
  "spec_accuracy h m =
     (if h + m = 0 then 0 else \<lfloor>(of_int h / of_int (h + m) * 100 :: rat) + 1 / 2\<rfloor>)"

text \<open>
  The exact percentage lies halfway between two integers: \<open>100 h / (h + m) + 1 / 2\<close>, which
  is \<open>(200 h + (h + m)) / (2 (h + m))\<close>, is an integer.
\<close>

definition exact_half :: "int \<Rightarrow> int \<Rightarrow> bool" where
  "exact_half h m = ((200 * h + (h + m)) mod (2 * (h + m)) = 0)"


section \<open>Invariants\<close>

definition timers_ok :: "App \<Rightarrow> bool" where
  "timers_ok s = (timerRef s = (if gameState s = Playing then Some 1000 else None)
      \<and> cleanup s = (if gameState s = Playing then Some 100 else None)
      \<and> spawnRef s = (if gameState s = Playing then Some (spawnInterval (timeLeft s)) else None))"

definition ids_ok :: "App \<Rightarrow> bool" where
  "ids_ok s = (distinct (map idT (targets s)) \<and> list_all (\<lambda>t. idT t < targetIdRef s) (targets s))"

definition stats_ok :: "App \<Rightarrow> bool" where
  "stats_ok s = (0 \<le> hits (stats s) \<and> 0 \<le> misses (stats s)
      \<and> accuracy (stats s) = accuracyOf (hits (stats s)) (misses (stats s)))"


section \<open>Sample sessions\<close>

text \<open>
  A 1280 by 720 play area and the draws 1/2, 1/4, 3/4 put a target of size 45 at
  (358.75, 456.25).
\<close>

definition target_at :: "int \<Rightarrow> int \<Rightarrow> Target" where
  "target_at i now = \<lparr>idT = i, xT = 1435 / 4, yT = 1825 / 4, sizeT = 45, createdAt = now\<rparr>"

text \<open>Start; the first initial spawn; a hit on it; a miss; one tick of the clock.\<close>

definition demo :: "event list" where
  "demo = [ClickStart, TimeoutFire (1280, 720) (1 / 2, 1 / 4, 3 / 4) 1000, ClickTarget 0,
           ClickArea, ClockFire]"

definition demo_end :: App where
  "demo_end = \<lparr>gameState = Playing, targets = [],
     stats = \<lparr>score = 100, hits = 1, misses = 1, accuracy = 50\<rparr>,
     timeLeft = 59, combo = 0, maxCombo = 1, targetIdRef = 1,
     timerRef = Some 1000, spawnRef = Some 990, cleanup = Some 100, pendingSpawns = 2\<rparr>"

text \<open>Start and the three initial spawns, at 0, 300 and 600 ms.\<close>

definition first_spawns :: "event list" where
  "first_spawns = [ClickStart,
     TimeoutFire (1280, 720) (1 / 2, 1 / 4, 3 / 4) 1000,
     TimeoutFire (1280, 720) (1 / 2, 1 / 4, 3 / 4) 1300,
     TimeoutFire (1280, 720) (1 / 2, 1 / 4, 3 / 4) 1600]"

definition first_spawns_end :: App where
  "first_spawns_end = \<lparr>gameState = Playing,
     targets = [target_at 0 1000, target_at 1 1300, target_at 2 1600],
     stats = \<lparr>score = 0, hits = 0, misses = 0, accuracy = 0\<rparr>,
     timeLeft = 60, combo = 0, maxCombo = 0, targetIdRef = 3,
     timerRef = Some 1000, spawnRef = Some 1000, cleanup = Some 100, pendingSpawns = 0\<rparr>"

text \<open>
  Start, the first initial spawn, End clicked 200 ms later, and then the two initial spawns
  that were still scheduled.
\<close>

definition early_end :: "event list" where
  "early_end = [ClickStart,
     TimeoutFire (1280, 720) (1 / 2, 1 / 4, 3 / 4) 1000,
     ClickEnd,
     TimeoutFire (1280, 720) (1 / 2, 1 / 4, 3 / 4) 1300,
     TimeoutFire (1280, 720) (1 / 2, 1 / 4, 3 / 4) 1600]"

definition ended_early :: App where
  "ended_early = \<lparr>gameState = Ended, targets = [],
     stats = \<lparr>score = 0, hits = 0, misses = 0, accuracy = 0\<rparr>,
     timeLeft = 60, combo = 0, maxCombo = 0, targetIdRef = 1,
     timerRef = None, spawnRef = None, cleanup = None, pendingSpawns = 2\<rparr>"

definition early_end_state :: App where
  "early_end_state = ended_early\<lparr>targets := [target_at 1 1300, target_at 2 1600],
     targetIdRef := 3, pendingSpawns := 0\<rparr>"

text \<open>
  After a start: the three initial spawns, two hits in a row, a miss, and a third hit.
\<close>

definition streak :: "event list" where
  "streak = [TimeoutFire (1280, 720) (1 / 2, 1 / 4, 3 / 4) 1000,
     TimeoutFire (1280, 720) (1 / 2, 1 / 4, 3 / 4) 1300,
     TimeoutFire (1280, 720) (1 / 2, 1 / 4, 3 / 4) 1600,
     ClickTarget 0, ClickTarget 1, ClickArea, ClickTarget 2]"

text \<open>
  A start; twenty-three seconds in each of which the clock ticks and a target is spawned
  and hit; then seventeen misses.
\<close>

definition second_with_hit :: "int \<Rightarrow> event list" where
  "second_with_hit i =
     [ClockFire, SpawnFire (1280, 720) (1 / 2, 1 / 4, 3 / 4) (1000 * i), ClickTarget i]"

definition hits23_misses17 :: "event list" where
  "hits23_misses17 = ClickStart #
     concat (map second_with_hit
       [0, 1, 2, 3, 4, 5, 6, 7, 8, 9, 10, 11, 12, 13, 14, 15, 16, 17, 18, 19, 20, 21, 22])
     @ replicate 17 ClickArea"

definition hits23_misses17_end :: App where
  "hits23_misses17_end = \<lparr>gameState = Playing, targets = [],
     stats = \<lparr>score = 4830, hits = 23, misses = 17, accuracy = 57\<rparr>,
     timeLeft = 37, combo = 0, maxCombo = 23, targetIdRef = 23,
     timerRef = Some 1000, spawnRef = Some 770, cleanup = Some 100, pendingSpawns = 3\<rparr>"


section \<open>Basic facts\<close>

lemmas effect_defs = runEffects_def effectTimers_def effectExpiry_def effectInitialSpawn_def

lemma runEffects_fields [simp]:
  "gameState (runEffects p s) = gameState s"
  "targets (runEffects p s) = targets s"
  "stats (runEffects p s) = stats s"
  "timeLeft (runEffects p s) = timeLeft s"
  "combo (runEffects p s) = combo s"
  "maxCombo (runEffects p s) = maxCombo s"
  "targetIdRef (runEffects p s) = targetIdRef s"
  by (simp_all add: effect_defs Let_def)

lemma runEffects_timers:
  "timerRef (runEffects p s) =
     (if gameState p = gameState s \<and> timeLeft p = timeLeft s then timerRef s
      else if gameState s = Playing then Some 1000
      else if gameState p = Playing then None else timerRef s)"
  "spawnRef (runEffects p s) =
     (if gameState p = gameState s \<and> timeLeft p = timeLeft s then spawnRef s
      else if gameState s = Playing then Some (spawnInterval (timeLeft s))
      else if gameState p = Playing then None else spawnRef s)"
  "cleanup (runEffects p s) =
     (if gameState p = gameState s then cleanup s
      else if gameState s = Playing then Some 100
      else if gameState p = Playing then None else cleanup s)"
  "pendingSpawns (runEffects p s) =
     (if gameState p = gameState s then pendingSpawns s
      else if gameState s = Playing then pendingSpawns s + 3 else pendingSpawns s)"
  by (simp_all add: effect_defs Let_def)

lemma spawnTarget_fields [simp]:
  "gameState (spawnTarget rect rnd now s) = gameState s"
  "stats (spawnTarget rect rnd now s) = stats s"
  "timeLeft (spawnTarget rect rnd now s) = timeLeft s"
  "combo (spawnTarget rect rnd now s) = combo s"
  "maxCombo (spawnTarget rect rnd now s) = maxCombo s"
  "targetIdRef (spawnTarget rect rnd now s) = targetIdRef s + 1"
  "timerRef (spawnTarget rect rnd now s) = timerRef s"
  "spawnRef (spawnTarget rect rnd now s) = spawnRef s"
  "cleanup (spawnTarget rect rnd now s) = cleanup s"
  "pendingSpawns (spawnTarget rect rnd now s) = pendingSpawns s"
  by (simp_all add: spawnTarget_def Let_def split: prod.splits)

lemma spawnTarget_targets:
  "\<exists>t. idT t = targetIdRef s \<and> createdAt t = now
       \<and> targets (spawnTarget rect rnd now s) = targets s @ [t]"
  by (simp add: spawnTarget_def Let_def split: prod.splits)

text \<open>A property that holds initially and that every possible event keeps holds after a run.\<close>

lemma run_invariant:
  assumes "run es s = Some s'" and "P s"
    and "\<And>e s. enabled e s \<Longrightarrow> P s \<Longrightarrow> P (step e s)"
  shows "P s'"
  using assms(1,2)
proof (induction es arbitrary: s)
  case Nil
  then show ?case by simp
next
  case (Cons e es)
  from Cons.prems(1) have en: "enabled e s" and rest: "run es (step e s) = Some s'"
    by (auto split: if_splits)
  from assms(3)[OF en Cons.prems(2)] have "P (step e s)" .
  with Cons.IH rest show ?case by blast
qed

text \<open>
  The three intervals are live exactly in the playing state, and the spawn interval always
  carries the period computed from the current \<open>timeLeft\<close>.
\<close>

lemma timers_ok_step: "enabled e s \<Longrightarrow> timers_ok s \<Longrightarrow> timers_ok (step e s)"
  by (cases e) (auto simp add: timers_ok_def step_def runEffects_timers hitTarget_def
      handleMiss_def startGame_def endGame_def clockTick_def expiryTick_def Let_def)

lemma timers_ok_run:
  assumes "run es initial = Some s"
  shows "timers_ok s"
  using assms
proof (rule run_invariant [where P = timers_ok])
  show "timers_ok initial"
    by (simp add: timers_ok_def initial_def)
qed (rule timers_ok_step)


section \<open>Rounding to a double\<close>

lemma pow2_powi: "pow2 n = 2 powi n"
  by (simp add: pow2_def power_int_def power_inverse field_simps)

lemma pow2_pos [simp]: "0 < pow2 n"
  by (simp add: pow2_def)

lemma pow2_add: "pow2 (a + b) = pow2 a * pow2 b"
  by (simp add: pow2_powi power_int_add)

lemma bitlen_pow2:
  assumes "0 < x"
  shows "pow2 (bitlen x - 1) \<le> of_int x" and "of_int x < pow2 (bitlen x)"
proof -
  from assms have b1: "1 \<le> bitlen x"
    using bitlen_eq_zero_iff [of x] bitlen_nonneg [of x] by linarith
  from bitlen_bounds [OF assms]
  have lo: "2 ^ nat (bitlen x - 1) \<le> x" and hi: "x < 2 ^ nat (bitlen x)"
    by simp_all
  have "(of_int (2 ^ nat (bitlen x - 1)) :: rat) \<le> of_int x"
    using lo by (simp only: of_int_le_iff)
  then show "pow2 (bitlen x - 1) \<le> of_int x"
    using b1 by (simp add: pow2_def)
  have "(of_int x :: rat) < of_int (2 ^ nat (bitlen x))"
    using hi by (simp only: of_int_less_iff)
  then show "of_int x < pow2 (bitlen x)"
    using b1 by (simp add: pow2_def)
qed

text \<open>\<open>binade\<close> is the binary exponent: the significand \<open>q / 2^e\<close> lies in \<open>[1, 2)\<close>.\<close>

lemma binade_bounds:
  assumes "0 < q"
  shows "pow2 (binade q) \<le> q \<and> q < pow2 (binade q + 1)"
proof -
  obtain a b where ab: "quotient_of q = (a, b)"
    by (cases "quotient_of q")
  then have b: "0 < b" and q: "q = of_int a / of_int b"
    using quotient_of_denom_pos quotient_of_div by blast+
  from assms q b have a: "0 < a"
    by (simp add: zero_less_divide_iff)
  define d where "d = bitlen a - bitlen b"
  note A = bitlen_pow2 [OF a] and B = bitlen_pow2 [OF b]
  have bpos: "(0::rat) < of_int b"
    using b by simp
  have up: "q < pow2 (d + 1)"
  proof -
    have "pow2 (bitlen a) = pow2 (d + 1) * pow2 (bitlen b - 1)"
      by (simp add: d_def pow2_add [symmetric])
    also have "\<dots> \<le> pow2 (d + 1) * of_int b"
      using B(1) by (simp add: mult_left_mono less_imp_le)
    finally have "of_int a < pow2 (d + 1) * of_int b"
      using A(2) by linarith
    then show ?thesis
      using bpos by (simp add: q pos_divide_less_eq)
  qed
  have low: "pow2 (d - 1) < q"
  proof -
    have "pow2 (d - 1) * of_int b < pow2 (d - 1) * pow2 (bitlen b)"
      using B(2) by (simp add: mult_strict_left_mono)
    also have "\<dots> = pow2 (bitlen a - 1)"
      by (simp add: d_def pow2_add [symmetric])
    finally have "pow2 (d - 1) * of_int b < of_int a"
      using A(1) by linarith
    then show ?thesis
      using bpos by (simp add: q pos_less_divide_eq)
  qed
  show ?thesis
  proof (cases "pow2 d \<le> q")
    case True
    then have "binade q = d"
      by (simp add: binade_def ab d_def Let_def)
    with True up show ?thesis by simp
  next
    case False
    then have "binade q = d - 1"
      by (simp add: binade_def ab d_def Let_def)
    with False low show ?thesis by simp
  qed
qed

lemma round_even_err: "\<bar>of_int (round_even m) - m\<bar> \<le> 1 / 2"
proof -
  have "of_int \<lfloor>m\<rfloor> \<le> m" and "m < of_int \<lfloor>m\<rfloor> + 1"
    by linarith+
  then show ?thesis
    by (auto simp add: round_even_def Let_def abs_le_iff)
qed

text \<open>The relative error of one rounding is at most \<open>2^-53\<close>.\<close>

lemma fl_err:
  assumes "0 < q"
  shows "\<bar>fl q - q\<bar> \<le> q / 2 ^ 53"
proof -
  define u where "u = pow2 (binade q - 52)"
  have u: "0 < u"
    by (simp add: u_def)
  have fl: "fl q = of_int (round_even (q / u)) * u"
    using assms by (simp add: fl_def u_def Let_def)
  have "fl q - q = (of_int (round_even (q / u)) - q / u) * u"
    using u by (simp add: fl left_diff_distrib)
  then have "\<bar>fl q - q\<bar> = \<bar>of_int (round_even (q / u)) - q / u\<bar> * u"
    using u by (simp add: abs_mult)
  also have "\<dots> \<le> 1 / 2 * u"
    using round_even_err [of "q / u"] u by (simp only: mult_right_mono less_imp_le)
  also have "1 / 2 * u = pow2 (binade q) / 2 ^ 53"
  proof -
    have "u = pow2 (binade q) * pow2 (- 52)"
      unfolding u_def by (simp add: pow2_add [symmetric])
    then show ?thesis
      by (simp add: pow2_def)
  qed
  also have "\<dots> \<le> q / 2 ^ 53"
    using binade_bounds [OF assms] by (simp add: divide_right_mono)
  finally show ?thesis .
qed

lemma fl_0: "fl 0 = 0"
  by (simp add: fl_def)

lemma Math_round_0: "Math_round 0 = 0"
  unfolding Math_round_def by (rule floor_unique) simp_all

text \<open>The two roundings of \<^verbatim>\<open>(hits / total) * 100\<close> move the percentage by less than \<open>2^-44\<close>.\<close>

lemma percent_err:
  assumes "0 < h" and "h \<le> t"
  shows "\<bar>fl (fl (of_int h / of_int t) * 100) - of_int h / of_int t * 100\<bar> \<le> 300 / 2 ^ 53"
proof -
  define eps :: rat where "eps = 1 / 2 ^ 53"
  have eps: "0 < eps" "eps < 1"
    by (simp_all add: eps_def)
  define q :: rat where "q = of_int h / of_int t"
  from assms have q: "0 < q" "q \<le> 1"
    by (simp_all add: q_def divide_le_eq_1)
  define x where "x = fl q"
  have e1: "\<bar>x - q\<bar> \<le> q * eps"
    using fl_err [OF q(1)] by (simp add: x_def eps_def)
  have "q * eps \<le> 1 * eps"
    using q(2) eps(1) by (intro mult_right_mono) simp_all
  then have qe: "q * eps \<le> eps"
    by simp
  have "q * eps < q * 1"
    using q(1) eps(2) by (intro mult_strict_left_mono)
  then have qq: "q * eps < q"
    by simp
  from e1 qe qq q eps have x: "0 < x" "x \<le> 2"
    by linarith+
  from x(1) have "0 < x * 100"
    by simp
  from fl_err [OF this] have e2: "\<bar>fl (x * 100) - x * 100\<bar> \<le> x * 100 * eps"
    by (simp add: eps_def)
  have "x * 100 * eps \<le> 200 * eps"
    using x(2) eps(1) by (intro mult_right_mono) simp_all
  with e2 have e2': "\<bar>fl (x * 100) - x * 100\<bar> \<le> 200 * eps"
    by (rule order_trans)
  from e1 qe have "\<bar>x * 100 - q * 100\<bar> \<le> 100 * eps"
    by linarith
  with e2' have "\<bar>fl (x * 100) - q * 100\<bar> \<le> 300 * eps"
    by linarith
  then show ?thesis
    by (simp add: x_def q_def eps_def)
qed

lemma half_up_quotient:
  assumes "0 < t"
  shows "(of_int h / of_int t * 100 + 1 / 2 :: rat) = of_int (200 * h + t) / of_int (2 * t)"
  using assms by (simp add: field_simps)

lemma spec_accuracy_div:
  assumes "0 < h + m"
  shows "spec_accuracy h m = (200 * h + (h + m)) div (2 * (h + m))"
proof -
  from assms have "spec_accuracy h m = \<lfloor>(of_int h / of_int (h + m) * 100 + 1 / 2 :: rat)\<rfloor>"
    by (simp add: spec_accuracy_def)
  also have "\<dots> = \<lfloor>(of_int (200 * h + (h + m)) / of_int (2 * (h + m)) :: rat)\<rfloor>"
    using half_up_quotient [OF assms] by simp
  also have "\<dots> = (200 * h + (h + m)) div (2 * (h + m))"
    by (rule floor_divide_of_int_eq)
  finally show ?thesis .
qed

text \<open>
  Up to \<open>2^43\<close> attempts, the percentage the code computes is the exactly rounded one, or
  one less; it can be one less only where the exact percentage is a half.
\<close>

lemma accuracyOf_vs_spec:
  assumes "0 \<le> h" and "0 \<le> m" and "0 < h + m" and "h + m \<le> 2 ^ 43"
  shows "spec_accuracy h m - 1 \<le> accuracyOf h m \<and> accuracyOf h m \<le> spec_accuracy h m
       \<and> (exact_half h m \<or> accuracyOf h m = spec_accuracy h m)"
proof (cases "h = 0")
  case True
  have "accuracyOf 0 m = 0"
    using assms(3) True by (simp add: accuracyOf_def fl_0 Math_round_0)
  moreover have "spec_accuracy 0 m = 0"
    using assms(3) True Math_round_0 by (simp add: spec_accuracy_def Math_round_def)
  ultimately show ?thesis
    using True by simp
next
  case False
  define t where "t = h + m"
  from False assms have h: "0 < h" "h \<le> t" and t: "0 < t" "t \<le> 2 ^ 43"
    by (simp_all add: t_def)
  define y where "y = fl (fl (of_int h / of_int t) * 100)"
  define v :: rat where "v = of_int h / of_int t * 100 + 1 / 2"
  define k where "k = (200 * h + t) div (2 * t)"
  define r where "r = (200 * h + t) mod (2 * t)"
  have acc: "accuracyOf h m = \<lfloor>y + 1 / 2\<rfloor>"
    using t(1) by (simp add: accuracyOf_def Math_round_def y_def t_def Let_def)
  have spec: "spec_accuracy h m = k"
    using spec_accuracy_div [OF assms(3)] by (simp add: k_def t_def)
  have err: "\<bar>y - of_int h / of_int t * 100\<bar> \<le> 300 / 2 ^ 53"
    unfolding y_def using h by (rule percent_err)
  have r: "0 \<le> r" "r < 2 * t"
    using t(1) by (simp_all add: r_def)
  have "200 * h + t = 2 * t * k + r"
    by (simp add: k_def r_def)
  then have "(of_int (200 * h + t) :: rat) = of_int (2 * t) * of_int k + of_int r"
    by (metis of_int_add of_int_mult)
  then have v: "v = of_int k + of_int r / of_int (2 * t)"
    using t(1) half_up_quotient [OF t(1), of h] by (simp add: v_def field_simps)
  have D: "(0::rat) < of_int (2 * t)" "(of_int (2 * t) :: rat) \<le> 2 ^ 44"
  proof -
    show "(0::rat) < of_int (2 * t)"
      using t(1) by simp
    have "2 * t \<le> 2 ^ 44"
      using t(2) by simp
    then have "(of_int (2 * t) :: rat) \<le> of_int (2 ^ 44)"
      by (simp only: of_int_le_iff)
    then show "(of_int (2 * t) :: rat) \<le> 2 ^ 44"
      by simp
  qed
  have unit: "(300 / 2 ^ 53 :: rat) < 1 / of_int (2 * t)"
  proof -
    have "(300 / 2 ^ 53 :: rat) < 1 / 2 ^ 44"
      by simp
    also have "\<dots> \<le> 1 / of_int (2 * t)"
      using D by (simp add: frac_le)
    finally show ?thesis .
  qed
  have frac_lo: "(0::rat) \<le> of_int r / of_int (2 * t)"
    using r(1) D(1) by simp
  have frac_hi: "(of_int r / of_int (2 * t) :: rat) \<le> 1 - 1 / of_int (2 * t)"
  proof -
    have "r \<le> 2 * t - 1"
      using r(2) by simp
    then have "(of_int r :: rat) \<le> of_int (2 * t - 1)"
      by (simp only: of_int_le_iff)
    then have "(of_int r :: rat) \<le> of_int (2 * t) - 1"
      by simp
    then have "(of_int r / of_int (2 * t) :: rat) \<le> (of_int (2 * t) - 1) / of_int (2 * t)"
      using D(1) by (simp only: divide_right_mono less_imp_le)
    also have "\<dots> = 1 - 1 / of_int (2 * t)"
      using D(1) by (simp add: diff_divide_distrib)
    finally show ?thesis .
  qed
  have close: "\<bar>(y + 1 / 2) - v\<bar> < 1 / of_int (2 * t)"
    using err unit by (simp add: v_def)
  have one: "(1 / of_int (2 * t) :: rat) \<le> 1"
    using t(1) D(1) by (simp add: divide_le_eq_1)
  have upper: "\<lfloor>y + 1 / 2\<rfloor> \<le> k"
  proof -
    have "y + 1 / 2 < of_int k + 1"
      using close frac_hi v by (simp add: abs_less_iff)
    then show ?thesis
      by (simp only: floor_le_iff)
  qed
  have lower: "k - 1 \<le> \<lfloor>y + 1 / 2\<rfloor>"
  proof -
    have "of_int (k - 1) \<le> y + 1 / 2"
      using close frac_lo one v by (simp add: abs_less_iff)
    then show ?thesis
      by (simp only: le_floor_iff)
  qed
  have exact: "\<lfloor>y + 1 / 2\<rfloor> = k" if "r \<noteq> 0"
  proof -
    from that r(1) have "1 \<le> r"
      by simp
    then have "(of_int 1 :: rat) \<le> of_int r"
      by (simp only: of_int_le_iff)
    then have "(1 / of_int (2 * t) :: rat) \<le> of_int r / of_int (2 * t)"
      using D(1) by (simp add: divide_right_mono)
    then have "of_int k \<le> y + 1 / 2"
      using close v by (simp add: abs_less_iff)
    then have "k \<le> \<lfloor>y + 1 / 2\<rfloor>"
      by (simp only: le_floor_iff)
    with upper show ?thesis
      by simp
  qed
  have "exact_half h m \<longleftrightarrow> r = 0"
    by (simp add: exact_half_def r_def t_def)
  with acc spec upper lower exact show ?thesis
    by auto
qed


section \<open>The sample sessions, evaluated\<close>

lemma fl_facts:
  "fl 1 = 1" "fl 100 = 100" "fl (1 / 2) = 1 / 2" "fl 50 = 50" "fl 15 = 15" "fl 45 = 45"
  "fl 1235 = 1235" "fl 1035 = 1035" "fl (1035 / 4) = 1035 / 4" "fl (1435 / 4) = 1435 / 4"
  "fl 675 = 675" "fl 475 = 475" "fl (1425 / 4) = 1425 / 4" "fl (1825 / 4) = 1825 / 4"
  by code_simp+

lemma Math_round_facts: "Math_round 100 = 100" "Math_round 50 = 50"
  by code_simp+

text \<open>
  \<open>fl\<close> on known doubles: 0.1 is \<open>3602879701896397 / 2^55\<close>; the double nearest to 23/40
  lies below it, and so does its product with 100, which is \<open>57.5 - 2^-47\<close> and prints as
  57.49999999999999; \<^verbatim>\<open>Math.round\<close> takes it down to 57.
\<close>

lemma fl_known_doubles:
  "fl (1 / 10) = 3602879701896397 / 36028797018963968"
  "fl (23 / 40) = 2589569785738035 / 4503599627370496"
  "fl (fl (23 / 40) * 100) = 8092405580431359 / 140737488355328"
  by code_simp+

lemma percent_23_of_40: "Math_round (fl (fl (23 / 40) * 100)) = 57"
  by code_simp

lemma spawn_sample:
  "spawnTarget (1280, 720) (1 / 2, 1 / 4, 3 / 4) now s =
     s\<lparr>targetIdRef := targetIdRef s + 1, targets := targets s @ [target_at (targetIdRef s) now]\<rparr>"
  by (simp add: spawnTarget_def target_at_def Let_def fl_facts)

lemma demo_run: "run demo initial = Some demo_end"
  by (simp add: demo_def demo_end_def initial_def step_def effect_defs spawn_sample target_at_def
      hitTarget_def handleMiss_def startGame_def clockTick_def spawnInterval_def Let_def
      fl_facts Math_round_facts)

lemma first_spawns_run: "run first_spawns initial = Some first_spawns_end"
  by (simp add: first_spawns_def first_spawns_end_def initial_def step_def effect_defs spawn_sample
      target_at_def startGame_def spawnInterval_def)

lemma streak_values:
  "map_option (map combo) (trace streak (step ClickStart initial)) = Some [0, 0, 0, 0, 1, 2, 0, 1]"
  "map_option (map maxCombo) (trace streak (step ClickStart initial)) = Some [0, 0, 0, 0, 1, 2, 2, 2]"
  by (simp_all add: streak_def initial_def step_def effect_defs spawn_sample
      target_at_def hitTarget_def handleMiss_def startGame_def Let_def)


section \<open>Accuracy\<close>

lemma accuracyOf_0_0: "accuracyOf 0 0 = 0"
  by (simp add: accuracyOf_def)

lemma accuracy_step:
  "accuracy (stats (step (ClickTarget i) s)) =
     accuracyOf (hits (stats (step (ClickTarget i) s))) (misses (stats (step (ClickTarget i) s)))"
  "accuracy (stats (step ClickArea s)) =
     accuracyOf (hits (stats (step ClickArea s))) (misses (stats (step ClickArea s)))"
  by (simp_all add: step_def hitTarget_def handleMiss_def accuracyOf_def Let_def)

lemma stats_ok_step: "stats_ok s \<Longrightarrow> stats_ok (step e s)"
proof (cases e)
  case (ClickTarget i)
  assume "stats_ok s"
  then show ?thesis
    unfolding ClickTarget stats_ok_def accuracy_step(1)
    by (simp add: step_def hitTarget_def Let_def)
next
  case ClickArea
  assume "stats_ok s"
  then show ?thesis
    unfolding ClickArea stats_ok_def accuracy_step(2)
    by (simp add: step_def handleMiss_def Let_def)
qed (simp_all add: stats_ok_def step_def startGame_def endGame_def clockTick_def expiryTick_def
      accuracyOf_0_0)

lemma stats_ok_run:
  assumes "run es initial = Some s"
  shows "stats_ok s"
  using assms
proof (rule run_invariant [where P = stats_ok])
  show "stats_ok initial"
    by (simp add: stats_ok_def initial_def accuracyOf_0_0)
qed (rule stats_ok_step)

text \<open>
  C1, as the code has it. After every hit and after every miss, and in every state a run
  reaches, \<open>accuracy\<close> is \<^verbatim>\<open>Math.round\<close> of the double \<^verbatim>\<open>(hits / (hits + misses)) * 100\<close>,
  and it is 0 when \<open>hits + misses = 0\<close>. Up to \<open>2^43\<close> attempts this is the exactly rounded
  percentage \<open>round (hits / (hits + misses) \<times> 100)\<close> unless the exact percentage lies halfway
  between two integers; there it is the rounded percentage or one less.
\<close>

theorem accuracy_tracks_counts:
  "accuracy (stats (step (ClickTarget i) s)) =
     accuracyOf (hits (stats (step (ClickTarget i) s))) (misses (stats (step (ClickTarget i) s)))
   \<and> accuracy (stats (step ClickArea s)) =
     accuracyOf (hits (stats (step ClickArea s))) (misses (stats (step ClickArea s)))
   \<and> (run es initial = Some s' \<longrightarrow>
        accuracy (stats s') = accuracyOf (hits (stats s')) (misses (stats s'))
      \<and> (hits (stats s') + misses (stats s') = 0 \<longrightarrow> accuracy (stats s') = 0)
      \<and> (0 < hits (stats s') + misses (stats s') \<and> hits (stats s') + misses (stats s') \<le> 2 ^ 43 \<longrightarrow>
           spec_accuracy (hits (stats s')) (misses (stats s')) - 1 \<le> accuracy (stats s')
         \<and> accuracy (stats s') \<le> spec_accuracy (hits (stats s')) (misses (stats s'))
         \<and> (exact_half (hits (stats s')) (misses (stats s'))
            \<or> accuracy (stats s') = spec_accuracy (hits (stats s')) (misses (stats s')))))"
proof -
  have reached: "accuracy (stats s') = accuracyOf (hits (stats s')) (misses (stats s'))
      \<and> (hits (stats s') + misses (stats s') = 0 \<longrightarrow> accuracy (stats s') = 0)
      \<and> (0 < hits (stats s') + misses (stats s') \<and> hits (stats s') + misses (stats s') \<le> 2 ^ 43 \<longrightarrow>
           spec_accuracy (hits (stats s')) (misses (stats s')) - 1 \<le> accuracy (stats s')
         \<and> accuracy (stats s') \<le> spec_accuracy (hits (stats s')) (misses (stats s'))
         \<and> (exact_half (hits (stats s')) (misses (stats s'))
            \<or> accuracy (stats s') = spec_accuracy (hits (stats s')) (misses (stats s'))))"
    if "run es initial = Some s'"
  proof -
    from stats_ok_run [OF that]
    have h: "0 \<le> hits (stats s')" and m: "0 \<le> misses (stats s')"
      and a: "accuracy (stats s') = accuracyOf (hits (stats s')) (misses (stats s'))"
      by (simp_all add: stats_ok_def)
    have zero: "accuracy (stats s') = 0" if "hits (stats s') + misses (stats s') = 0"
      using a that by (simp add: accuracyOf_def)
    from a zero accuracyOf_vs_spec [OF h m] show ?thesis
      by simp
  qed
  from accuracy_step(1) [of i s] accuracy_step(2) [of s] reached show ?thesis
    by blast
qed

theorem accuracy_tracks_counts_witness:
  "run [] initial = Some initial
   \<and> hits (stats initial) + misses (stats initial) = 0 \<and> accuracy (stats initial) = 0
   \<and> run demo initial = Some demo_end
   \<and> hits (stats demo_end) = 1 \<and> misses (stats demo_end) = 1 \<and> \<not> exact_half 1 1
   \<and> accuracy (stats demo_end) = 50 \<and> accuracyOf 1 1 = 50 \<and> spec_accuracy 1 1 = 50"
proof -
  have start: "run [] initial = Some initial"
    by simp
  have counts: "hits (stats demo_end) = 1" "misses (stats demo_end) = 1"
    "accuracy (stats demo_end) = 50"
    by (simp_all add: demo_end_def)
  have half: "\<not> exact_half 1 1"
    by (simp add: exact_half_def)
  from accuracy_tracks_counts [of 0 initial "[]" initial] start
  have "accuracy (stats initial) = 0"
    by (simp add: initial_def)
  moreover from accuracy_tracks_counts [of 0 initial demo demo_end] demo_run counts half
  have "accuracyOf 1 1 = 50" and "spec_accuracy 1 1 = 50"
    by simp_all
  ultimately show ?thesis
    using start demo_run counts half by (simp add: initial_def)
qed

text \<open>
  C1, as the specification states it, fails: after twenty-three hits and seventeen misses
  the exact percentage is 57.5, which rounds to 58, and the code stores 57.
\<close>

theorem accuracy_not_exact_round:
  "run hits23_misses17 initial = Some hits23_misses17_end
   \<and> hits (stats hits23_misses17_end) = 23 \<and> misses (stats hits23_misses17_end) = 17
   \<and> accuracy (stats hits23_misses17_end) = 57
   \<and> spec_accuracy 23 17 = 58"
proof -
  have "run hits23_misses17 initial = Some hits23_misses17_end"
    by (simp add: hits23_misses17_def hits23_misses17_end_def second_with_hit_def initial_def
        step_def effect_defs spawn_sample target_at_def hitTarget_def handleMiss_def
        startGame_def clockTick_def spawnInterval_def Let_def eval_nat_numeral percent_23_of_40)
  moreover have "spec_accuracy 23 17 = 58"
    by (simp add: spec_accuracy_div)
  ultimately show ?thesis
    by (simp add: hits23_misses17_end_def)
qed


section \<open>Score\<close>

text \<open>
  C2. A hit adds exactly \<open>100 + 10 * c\<close> to the score, where \<open>c\<close> is the combo before the
  hit increments it; a miss leaves the score as it is.
\<close>

theorem hit_score:
  "score (stats (step (ClickTarget i) s)) = score (stats s) + (100 + 10 * combo s)
   \<and> score (stats (step ClickArea s)) = score (stats s)"
  by (simp add: step_def hitTarget_def handleMiss_def Let_def)


section \<open>Combo\<close>

lemma combo_nonneg_step: "0 \<le> combo s \<Longrightarrow> 0 \<le> combo (step e s)"
  by (cases e) (simp_all add: step_def hitTarget_def handleMiss_def startGame_def endGame_def
      clockTick_def expiryTick_def Let_def)

text \<open>
  C3. In every state a run from the initial state reaches, combo is at least 0; a miss sets
  combo to exactly 0; a hit increments combo by exactly 1.
\<close>

theorem combo_rules:
  "(run es initial = Some s \<longrightarrow> 0 \<le> combo s)
   \<and> combo (step ClickArea s') = 0
   \<and> combo (step (ClickTarget i) s') = combo s' + 1"
proof -
  have "0 \<le> combo s" if "run es initial = Some s"
    using that by (rule run_invariant [where P = "\<lambda>s. 0 \<le> combo s"])
      (simp_all add: initial_def combo_nonneg_step)
  then show ?thesis
    by (simp add: step_def hitTarget_def handleMiss_def Let_def)
qed

theorem combo_rules_witness:
  "run demo initial = Some demo_end \<and> 0 \<le> combo demo_end
   \<and> combo (step ClickArea demo_end) = 0
   \<and> combo (step (ClickTarget 0) demo_end) = combo demo_end + 1"
  using combo_rules [of demo demo_end demo_end 0] demo_run by simp


section \<open>Leaving the playing state\<close>

text \<open>
  What \<^verbatim>\<open>endGame\<close> and the effect cleanups do achieve: End and the last tick of the clock
  empty the target list and leave no interval live. The initial spawns that are still
  scheduled stay scheduled.
\<close>

lemma end_clears:
  assumes "gameState s = Playing" and "e = ClickEnd \<or> e = ClockFire \<and> timeLeft s \<le> 1"
  shows "gameState (step e s) = Ended \<and> targets (step e s) = []
       \<and> timerRef (step e s) = None \<and> spawnRef (step e s) = None \<and> cleanup (step e s) = None
       \<and> pendingSpawns (step e s) = pendingSpawns s"
  using assms by (auto simp add: step_def runEffects_timers endGame_def clockTick_def)

text \<open>
  C4 does not hold of the code. Start, the first initial spawn, then End within the next
  300 ms: the session is ended with no target and with two \<^verbatim>\<open>setTimeout\<close> callbacks still
  scheduled; when they fire, each appends a target, so that the ended state holds two
  targets.
\<close>

theorem early_end_leaves_targets:
  "run (take 3 early_end) initial = Some ended_early
   \<and> gameState ended_early = Ended \<and> targets ended_early = [] \<and> pendingSpawns ended_early = 2
   \<and> run early_end initial = Some early_end_state
   \<and> gameState early_end_state = Ended
   \<and> targets early_end_state = [target_at 1 1300, target_at 2 1600]"
  by (simp add: early_end_def ended_early_def early_end_state_def initial_def step_def effect_defs
      spawn_sample target_at_def startGame_def endGame_def)


section \<open>Expiry\<close>

text \<open>
  C5. The expiry watcher is an interval of 100 ms that is live exactly in the playing
  states. A tick of it removes exactly the targets whose age \<open>now - createdAt\<close> is at least
  3000 ms, keeps the others in their order, and changes neither the stats (misses
  included) nor the combo.
\<close>

theorem expiry_tick:
  "targets (step (ExpiryFire now) s) = filter (\<lambda>t. \<not> 3000 \<le> now - createdAt t) (targets s)
   \<and> set (targets (step (ExpiryFire now) s)) = {t \<in> set (targets s). \<not> 3000 \<le> now - createdAt t}
   \<and> subseq (targets (step (ExpiryFire now) s)) (targets s)
   \<and> stats (step (ExpiryFire now) s) = stats s
   \<and> combo (step (ExpiryFire now) s) = combo s
   \<and> maxCombo (step (ExpiryFire now) s) = maxCombo s
   \<and> (run es initial = Some s' \<longrightarrow>
        cleanup s' = (if gameState s' = Playing then Some 100 else None)
      \<and> enabled (ExpiryFire now) s' = (gameState s' = Playing))"
proof -
  have "cleanup s' = (if gameState s' = Playing then Some 100 else None)
      \<and> enabled (ExpiryFire now) s' = (gameState s' = Playing)" if "run es initial = Some s'"
    using timers_ok_run [OF that] by (simp add: timers_ok_def)
  then show ?thesis
    by (simp add: step_def expiryTick_def not_le)
qed

theorem expiry_tick_witness:
  "run first_spawns initial = Some first_spawns_end
   \<and> gameState first_spawns_end = Playing \<and> cleanup first_spawns_end = Some 100
   \<and> enabled (ExpiryFire 4000) first_spawns_end
   \<and> targets first_spawns_end = [target_at 0 1000, target_at 1 1300, target_at 2 1600]
   \<and> targets (step (ExpiryFire 4000) first_spawns_end) = [target_at 1 1300, target_at 2 1600]
   \<and> stats (step (ExpiryFire 4000) first_spawns_end) = stats first_spawns_end"
  using expiry_tick [of 4000 first_spawns_end first_spawns first_spawns_end] first_spawns_run
  by (simp add: first_spawns_end_def target_at_def)


section \<open>Spawn period\<close>

text \<open>
  C6. The period is \<open>max 400 (1000 - (60 - timeLeft) * 10)\<close>: 1000 ms at \<open>timeLeft = 60\<close>,
  never below 400 ms, and in every playing state a run reaches, the live spawn interval has
  the period the formula gives for the current \<open>timeLeft\<close>.
\<close>

theorem spawn_period:
  "spawnInterval secs = max 400 (1000 - (60 - secs) * 10)
   \<and> spawnInterval 60 = 1000
   \<and> 400 \<le> spawnInterval secs
   \<and> (run es initial = Some s \<longrightarrow> gameState s = Playing \<longrightarrow>
        spawnRef s = Some (max 400 (1000 - (60 - timeLeft s) * 10)))"
proof -
  have "spawnRef s = Some (max 400 (1000 - (60 - timeLeft s) * 10))"
    if "run es initial = Some s" "gameState s = Playing"
    using timers_ok_run [OF that(1)] that(2) by (simp add: timers_ok_def spawnInterval_def)
  then show ?thesis
    by (simp add: spawnInterval_def)
qed

theorem spawn_period_witness:
  "run demo initial = Some demo_end \<and> gameState demo_end = Playing
   \<and> timeLeft demo_end = 59 \<and> spawnRef demo_end = Some 990"
  using spawn_period [of 59 demo demo_end] demo_run by (simp add: demo_end_def)


section \<open>Session clock\<close>

lemma timeLeft_range_step:
  "0 \<le> timeLeft s \<and> timeLeft s \<le> 60 \<Longrightarrow> 0 \<le> timeLeft (step e s) \<and> timeLeft (step e s) \<le> 60"
  by (cases e) (simp_all add: step_def hitTarget_def handleMiss_def
      startGame_def endGame_def clockTick_def expiryTick_def Let_def)

text \<open>
  C7. A tick of the clock decrements \<open>timeLeft\<close> by 1, unless it fires with \<open>timeLeft \<le> 1\<close>:
  then the session is ended and \<open>timeLeft\<close> is 0. In the states a run reaches, the clock is
  an interval of 1000 ms that is live exactly while playing, and \<open>timeLeft\<close> stays between
  0 and 60.
\<close>

theorem clock_tick:
  "timeLeft (step ClockFire s) = (if timeLeft s \<le> 1 then 0 else timeLeft s - 1)
   \<and> gameState (step ClockFire s) = (if timeLeft s \<le> 1 then Ended else gameState s)
   \<and> (run es initial = Some s' \<longrightarrow>
        timerRef s' = (if gameState s' = Playing then Some 1000 else None)
      \<and> enabled ClockFire s' = (gameState s' = Playing)
      \<and> 0 \<le> timeLeft s' \<and> timeLeft s' \<le> 60)"
proof -
  have "0 \<le> timeLeft s' \<and> timeLeft s' \<le> 60" if "run es initial = Some s'"
    using that by (rule run_invariant [where P = "\<lambda>s. 0 \<le> timeLeft s \<and> timeLeft s \<le> 60"])
      (simp_all add: initial_def timeLeft_range_step)
  moreover have "timerRef s' = (if gameState s' = Playing then Some 1000 else None)
      \<and> enabled ClockFire s' = (gameState s' = Playing)" if "run es initial = Some s'"
    using timers_ok_run [OF that] by (simp add: timers_ok_def)
  ultimately show ?thesis
    by (simp add: step_def clockTick_def endGame_def)
qed

theorem clock_tick_witness:
  "run demo initial = Some demo_end
   \<and> timeLeft (step ClockFire demo_end) = 58 \<and> gameState (step ClockFire demo_end) = Playing
   \<and> timeLeft (step ClockFire (demo_end\<lparr>timeLeft := 1\<rparr>)) = 0
   \<and> gameState (step ClockFire (demo_end\<lparr>timeLeft := 1\<rparr>)) = Ended
   \<and> timerRef demo_end = Some 1000 \<and> gameState demo_end = Playing \<and> enabled ClockFire demo_end
   \<and> 0 \<le> timeLeft demo_end \<and> timeLeft demo_end \<le> 60"
  using clock_tick [of demo_end demo demo_end] clock_tick [of "demo_end\<lparr>timeLeft := 1\<rparr>" demo demo_end]
    demo_run by (simp add: demo_end_def)


section \<open>Restart\<close>

text \<open>
  C8. Play Again in the ended state and START TRAINING in the menu both run \<^verbatim>\<open>startGame\<close>:
  from any two states it yields the same game state, stats, time, combo, maximal combo,
  targets and id counter, namely playing, all zeros, 60 seconds, no target, and ids counted
  from 0 again.
\<close>

theorem restart_as_fresh_start:
  "gameState (step ClickStart e) = gameState (step ClickStart m)
   \<and> stats (step ClickStart e) = stats (step ClickStart m)
   \<and> timeLeft (step ClickStart e) = timeLeft (step ClickStart m)
   \<and> combo (step ClickStart e) = combo (step ClickStart m)
   \<and> maxCombo (step ClickStart e) = maxCombo (step ClickStart m)
   \<and> targets (step ClickStart e) = targets (step ClickStart m)
   \<and> targetIdRef (step ClickStart e) = targetIdRef (step ClickStart m)
   \<and> gameState (step ClickStart e) = Playing
   \<and> stats (step ClickStart e) = \<lparr>score = 0, hits = 0, misses = 0, accuracy = 0\<rparr>
   \<and> timeLeft (step ClickStart e) = 60
   \<and> combo (step ClickStart e) = 0
   \<and> maxCombo (step ClickStart e) = 0
   \<and> targets (step ClickStart e) = []
   \<and> targetIdRef (step ClickStart e) = 0"
  by (simp add: step_def startGame_def)


section \<open>Maximal combo\<close>

lemma trace_nonempty: "trace es s = Some ss \<Longrightarrow> ss \<noteq> [] \<and> hd ss = s"
  by (cases es) (auto split: if_splits)

lemma trace_length: "trace es s = Some ss \<Longrightarrow> length ss = Suc (length es)"
  by (induction es arbitrary: s ss) (auto split: if_splits)

lemma trace_take:
  "trace es s = Some ss \<Longrightarrow> k \<le> length es \<Longrightarrow> trace (take k es) s = Some (take (Suc k) ss)"
proof (induction es arbitrary: s ss k)
  case Nil
  then show ?case by auto
next
  case (Cons e es)
  from Cons.prems(1) obtain ss' where ss': "trace es (step e s) = Some ss'" "ss = s # ss'"
    and en: "enabled e s"
    by (auto split: if_splits)
  show ?case
  proof (cases k)
    case 0
    with ss' show ?thesis by simp
  next
    case (Suc j)
    with Cons.prems(2) have "j \<le> length es" by simp
    from Cons.IH [OF ss'(1) this] Suc ss'(2) en show ?thesis by simp
  qed
qed

lemma maxCombo_step_mono: "e \<noteq> ClickStart \<Longrightarrow> maxCombo s \<le> maxCombo (step e s)"
  by (cases e) (simp_all add: step_def hitTarget_def handleMiss_def endGame_def
      clockTick_def expiryTick_def Let_def)

lemma maxCombo_step_max:
  "e \<noteq> ClickStart \<Longrightarrow> 0 \<le> combo s \<Longrightarrow> combo s \<le> maxCombo s \<Longrightarrow>
     maxCombo (step e s) = max (maxCombo s) (combo (step e s)) \<and> 0 \<le> combo (step e s)"
  by (cases e) (simp_all add: step_def hitTarget_def handleMiss_def endGame_def
      clockTick_def expiryTick_def Let_def)

lemma maxCombo_trace_lower:
  "trace es s = Some ss \<Longrightarrow> ClickStart \<notin> set es \<Longrightarrow> x \<in> set ss \<Longrightarrow> maxCombo s \<le> maxCombo x"
proof (induction es arbitrary: s ss)
  case Nil
  then show ?case by auto
next
  case (Cons e es)
  from Cons.prems(1) obtain ss' where ss': "trace es (step e s) = Some ss'" "ss = s # ss'"
    by (auto split: if_splits)
  from Cons.prems(2) have ns: "ClickStart \<notin> set es" and e: "e \<noteq> ClickStart"
    by auto
  have "maxCombo s \<le> maxCombo (step e s)"
    using e by (rule maxCombo_step_mono)
  moreover have "maxCombo (step e s) \<le> maxCombo x" if "x \<in> set ss'"
    using Cons.IH [OF ss'(1) ns that] .
  ultimately show ?case
    using Cons.prems(3) ss'(2) by auto
qed

lemma maxCombo_trace_sorted:
  "trace es s = Some ss \<Longrightarrow> ClickStart \<notin> set es \<Longrightarrow> sorted (map maxCombo ss)"
proof (induction es arbitrary: s ss)
  case Nil
  then show ?case by auto
next
  case (Cons e es)
  from Cons.prems(1) obtain ss' where ss': "trace es (step e s) = Some ss'" "ss = s # ss'"
    by (auto split: if_splits)
  from Cons.prems(2) have ns: "ClickStart \<notin> set es" and e: "e \<noteq> ClickStart"
    by auto
  have "sorted (map maxCombo ss')"
    using Cons.IH [OF ss'(1) ns] .
  moreover have "maxCombo s \<le> maxCombo x" if "x \<in> set ss'" for x
    using maxCombo_trace_lower [OF ss'(1) ns that] maxCombo_step_mono [OF e, of s] by simp
  ultimately show ?case
    using ss'(2) by auto
qed

lemma maxCombo_trace_max:
  "trace es s = Some ss \<Longrightarrow> ClickStart \<notin> set es \<Longrightarrow> 0 \<le> combo s \<Longrightarrow> combo s \<le> maxCombo s \<Longrightarrow>
     maxCombo (last ss) = max (maxCombo s) (Max (combo ` set ss))"
proof (induction es arbitrary: s ss)
  case Nil
  then show ?case by auto
next
  case (Cons e es)
  from Cons.prems(1) obtain ss' where ss': "trace es (step e s) = Some ss'" "ss = s # ss'"
    by (auto split: if_splits)
  from Cons.prems(2) have ns: "ClickStart \<notin> set es" and e: "e \<noteq> ClickStart"
    by auto
  let ?s1 = "step e s"
  from maxCombo_step_max [OF e Cons.prems(3,4)]
  have m1: "maxCombo ?s1 = max (maxCombo s) (combo ?s1)" and c1: "0 \<le> combo ?s1"
    by simp_all
  then have le1: "combo ?s1 \<le> maxCombo ?s1"
    by simp
  from trace_nonempty [OF ss'(1)] have ne: "ss' \<noteq> []" and "hd ss' = ?s1"
    by simp_all
  then have first: "?s1 \<in> set ss'"
    by (metis hd_in_set)
  have "maxCombo (last ss') = max (maxCombo ?s1) (Max (combo ` set ss'))"
    using Cons.IH [OF ss'(1) ns c1 le1] .
  moreover have "combo ?s1 \<le> Max (combo ` set ss')"
    using first by simp
  moreover have "Max (combo ` set ss) = max (combo s) (Max (combo ` set ss'))"
    using ne ss'(2) by simp
  ultimately show ?case
    using m1 Cons.prems(4) ne ss'(2) by simp
qed

text \<open>
  C9. Along a session, that is the states \<open>ss\<close> passed from a start on, by events none of
  which is another start, \<open>maxCombo\<close> never decreases, and after every event (at every
  position \<open>k\<close>) it is the greatest value \<open>combo\<close> has had in the session so far.
\<close>

theorem maxCombo_high_water:
  assumes "trace es (step ClickStart s) = Some ss" and "ClickStart \<notin> set es"
  shows "sorted (map maxCombo ss)
       \<and> (\<forall>k < length ss. maxCombo (ss ! k) = Max (combo ` set (take (Suc k) ss)))"
proof -
  let ?s0 = "step ClickStart s"
  have start: "combo ?s0 = 0" "maxCombo ?s0 = 0"
    by (simp_all add: step_def startGame_def)
  have "maxCombo (ss ! k) = Max (combo ` set (take (Suc k) ss))" if k: "k < length ss" for k
  proof -
    from k trace_length [OF assms(1)] have kl: "k \<le> length es" by simp
    let ?ps = "take (Suc k) ss"
    have pre: "trace (take k es) ?s0 = Some ?ps"
      using trace_take [OF assms(1) kl] .
    have ns: "ClickStart \<notin> set (take k es)"
      using assms(2) by (auto dest: in_set_takeD)
    from trace_nonempty [OF pre] have ne: "?ps \<noteq> []" and "hd ?ps = ?s0"
      by simp_all
    then have "?s0 \<in> set ?ps"
      by (metis hd_in_set)
    then have "0 \<le> Max (combo ` set ?ps)"
      using start(1) by (metis Max_ge finite_imageI finite_set image_eqI)
    moreover have "maxCombo (last ?ps) = max (maxCombo ?s0) (Max (combo ` set ?ps))"
      using maxCombo_trace_max [OF pre ns] start by simp
    moreover have "last ?ps = ss ! k"
      using k by (simp add: take_Suc_conv_app_nth)
    ultimately show ?thesis
      using start(2) by simp
  qed
  with maxCombo_trace_sorted [OF assms] show ?thesis
    by blast
qed

theorem maxCombo_high_water_witness:
  "ClickStart \<notin> set streak
   \<and> map_option (map combo) (trace streak (step ClickStart initial)) = Some [0, 0, 0, 0, 1, 2, 0, 1]
   \<and> map_option (map maxCombo) (trace streak (step ClickStart initial)) = Some [0, 0, 0, 0, 1, 2, 2, 2]
   \<and> map_option (\<lambda>ss. sorted (map maxCombo ss)) (trace streak (step ClickStart initial)) = Some True
   \<and> map_option (\<lambda>ss. maxCombo (ss ! 6) = Max (combo ` set (take 7 ss)))
        (trace streak (step ClickStart initial)) = Some True"
proof -
  from streak_values(1) obtain ss
    where tr: "trace streak (step ClickStart initial) = Some ss"
      and cs: "map combo ss = [0, 0, 0, 0, 1, 2, 0, 1]"
    by auto
  have ns: "ClickStart \<notin> set streak"
    by (simp add: streak_def)
  from cs have "length (map combo ss) = 8"
    by simp
  then have len: "6 < length ss"
    by simp
  from maxCombo_high_water [OF tr ns] len
  have "sorted (map maxCombo ss)"
    and "maxCombo (ss ! 6) = Max (combo ` set (take (Suc 6) ss))"
    by blast+
  with ns streak_values show ?thesis
    by (simp add: tr)
qed


section \<open>A hit removes one target\<close>

text \<open>Ids are handed out from a counter that only grows between two starts.\<close>

lemma ids_ok_step: "ids_ok s \<Longrightarrow> ids_ok (step e s)"
proof (cases e)
  case (SpawnFire rect rnd now)
  obtain t where t: "idT t = targetIdRef s" "targets (spawnTarget rect rnd now s) = targets s @ [t]"
    using spawnTarget_targets by blast
  assume "ids_ok s"
  with t SpawnFire show ?thesis
    by (auto simp add: ids_ok_def step_def list_all_iff)
next
  case (TimeoutFire rect rnd now)
  let ?s = "s\<lparr>pendingSpawns := pendingSpawns s - 1\<rparr>"
  obtain t where t: "idT t = targetIdRef ?s" "targets (spawnTarget rect rnd now ?s) = targets ?s @ [t]"
    using spawnTarget_targets by blast
  assume "ids_ok s"
  with t TimeoutFire show ?thesis
    by (auto simp add: ids_ok_def step_def list_all_iff)
qed (auto simp add: ids_ok_def step_def list_all_iff distinct_map_filter hitTarget_def handleMiss_def
      startGame_def endGame_def clockTick_def expiryTick_def Let_def)

lemma ids_ok_run:
  assumes "run es initial = Some s"
  shows "ids_ok s"
  using assms
proof (rule run_invariant [where P = ids_ok])
  show "ids_ok initial"
    by (simp add: ids_ok_def initial_def)
qed (rule ids_ok_step)

lemma filter_keeps_others: "v \<notin> f ` set xs \<Longrightarrow> filter (\<lambda>u. f u \<noteq> v) xs = xs"
  by (induction xs) auto

lemma filter_out_distinct_id:
  assumes "distinct (map f xs)" and "t \<in> set xs"
  shows "\<exists>ys zs. xs = ys @ t # zs \<and> filter (\<lambda>u. f u \<noteq> f t) xs = ys @ zs"
proof -
  from assms(2) obtain ys zs where xs: "xs = ys @ t # zs"
    by (auto dest: split_list)
  from assms(1) xs have "f t \<notin> f ` set ys" "f t \<notin> f ` set zs"
    by auto
  then have "filter (\<lambda>u. f u \<noteq> f t) ys = ys" "filter (\<lambda>u. f u \<noteq> f t) zs = zs"
    by (simp_all add: filter_keeps_others)
  with xs show ?thesis by auto
qed

text \<open>
  C10. In a playing state that a run reaches and whose list holds the target \<open>t\<close>, the ids
  in the list are distinct and the click on \<open>t\<close> is possible; it takes exactly \<open>t\<close> out of the
  list, the targets before and after it staying as they are and in their order, and apart
  from the list it changes only score, hits, accuracy, combo and maxCombo: misses,
  timeLeft, the game state, the id counter and the timers are as before.
\<close>

theorem hit_removes_one:
  assumes "run es initial = Some s" and "gameState s = Playing" and "t \<in> set (targets s)"
  shows "enabled (ClickTarget (idT t)) s \<and> distinct (map idT (targets s))
       \<and> (\<exists>ys zs sc h a c mc.
             targets s = ys @ t # zs
           \<and> step (ClickTarget (idT t)) s =
               s\<lparr>targets := ys @ zs,
                 stats := (stats s)\<lparr>score := sc, hits := h, accuracy := a\<rparr>,
                 combo := c, maxCombo := mc\<rparr>)"
proof -
  from ids_ok_run [OF assms(1)] have ids: "distinct (map idT (targets s))"
    by (simp add: ids_ok_def)
  from filter_out_distinct_id [OF this assms(3)] obtain ys zs
    where split: "targets s = ys @ t # zs"
      and gone: "filter (\<lambda>u. idT u \<noteq> idT t) (targets s) = ys @ zs"
    by blast
  have "step (ClickTarget (idT t)) s = hitTarget (combo s) (maxCombo s) (idT t) s"
    by (simp add: step_def effect_defs hitTarget_def Let_def)
  with split gone have "\<exists>ys zs sc h a c mc.
             targets s = ys @ t # zs
           \<and> step (ClickTarget (idT t)) s =
               s\<lparr>targets := ys @ zs,
                 stats := (stats s)\<lparr>score := sc, hits := h, accuracy := a\<rparr>,
                 combo := c, maxCombo := mc\<rparr>"
    unfolding hitTarget_def Let_def by (intro exI conjI) (assumption, simp)
  moreover have "enabled (ClickTarget (idT t)) s"
    using assms(2,3) by simp
  ultimately show ?thesis
    using ids by blast
qed

theorem hit_removes_one_witness:
  "run first_spawns initial = Some first_spawns_end \<and> gameState first_spawns_end = Playing
   \<and> target_at 1 1300 \<in> set (targets first_spawns_end)
   \<and> enabled (ClickTarget (idT (target_at 1 1300))) first_spawns_end
   \<and> distinct (map idT (targets first_spawns_end))
   \<and> (\<exists>ys zs sc h a c mc.
           targets first_spawns_end = ys @ target_at 1 1300 # zs
         \<and> step (ClickTarget (idT (target_at 1 1300))) first_spawns_end =
             first_spawns_end\<lparr>targets := ys @ zs,
               stats := (stats first_spawns_end)\<lparr>score := sc, hits := h, accuracy := a\<rparr>,
               combo := c, maxCombo := mc\<rparr>)
   \<and> targets (step (ClickTarget 1) first_spawns_end) = [target_at 0 1000, target_at 2 1600]"
proof -
  have playing: "gameState first_spawns_end = Playing"
    by (simp add: first_spawns_end_def)
  have present: "target_at 1 1300 \<in> set (targets first_spawns_end)"
    by (simp add: first_spawns_end_def)
  have left: "targets (step (ClickTarget 1) first_spawns_end) = [target_at 0 1000, target_at 2 1600]"
    by (simp add: first_spawns_end_def step_def hitTarget_def target_at_def Let_def)
  from hit_removes_one [OF first_spawns_run playing present] first_spawns_run playing present left
  show ?thesis by blast
qed

end
